theory Spec2Isabelle
  imports Complex_Main "HOL-Library.Sublist"
begin

section \<open>Number model\<close>

text \<open>
  The game computes with Python floats and unbounded ints. Python ints are \<open>int\<close>.
  Floats are idealised as exact reals: every finite float is a rational number, and the
  arithmetic below is carried out without rounding. \<open>int(x)\<close> on a float truncates
  toward zero; \<open>round(x)\<close> rounds to the nearest integer, ties to the even one.
\<close>

definition py_int :: "real \<Rightarrow> int" where
  "py_int x = (if 0 \<le> x then \<lfloor>x\<rfloor> else \<lceil>x\<rceil>)"

definition py_round :: "real \<Rightarrow> int" where
  "py_round x =
     (let f = \<lfloor>x\<rfloor>; d = x - of_int f
      in if d < 1 / 2 then f
         else if 1 / 2 < d then f + 1
         else if even f then f else f + 1)"

section \<open>Tunables\<close>

definition FPS :: int where "FPS = 30"
definition GRAVITY :: real where "GRAVITY = 22"
definition JUMP_VEL :: real where "JUMP_VEL = 10"
definition START_SPEED :: real where "START_SPEED = 1"

definition PIT_RATE :: real where "PIT_RATE = 0.010"
definition CONE_RATE :: real where "CONE_RATE = 0.014"
definition ENEMY_RATE :: real where "ENEMY_RATE = 0.010"
definition STEP_RATE :: real where "STEP_RATE = 0.012"
definition STEP_UP_BIAS :: real where "STEP_UP_BIAS = 0.55"

definition PIT_MIN :: int where "PIT_MIN = 3"
definition PIT_MAX :: int where "PIT_MAX = 9"
definition SAFE_START_SEC :: real where "SAFE_START_SEC = 2"
definition EDGE_BUFFER :: int where "EDGE_BUFFER = 4"
definition SPACING_FACTOR :: real where "SPACING_FACTOR = 1.2"

definition ENEMY_SCORE :: int where "ENEMY_SCORE = 25"

section \<open>Jump envelope\<close>

definition max_jump_columns :: "real \<Rightarrow> int" where
  "max_jump_columns speed_cols_per_frame =
     (let vx = speed_cols_per_frame * of_int FPS;
          t_air = 2 * (JUMP_VEL / GRAVITY)
      in max 3 (py_int (vx * t_air * 0.9)))"

definition min_spacing :: "real \<Rightarrow> int" where
  "min_spacing speed_cols_per_frame =
     py_int (of_int (max_jump_columns speed_cols_per_frame) * SPACING_FACTOR)"

section \<open>Random source\<close>

text \<open>
  The generator owns a \<open>random.Random\<close> seeded from the environment. It is modelled as an
  oracle: the outcome of the \<open>k\<close>-th call is fixed in advance but arbitrary, and
  \<open>draws\<close> counts the calls made so far. \<open>floats k\<close> is the outcome when call \<open>k\<close> is
  \<open>random()\<close>; \<open>ints k\<close> is the raw outcome when it is \<open>randint(a, b)\<close>, which
  returns an integer of \<open>[a, b]\<close> (for \<open>a \<le> b\<close>; the library raises ValueError on
  an empty range, which the one call site below never passes, see \<open>pit_cap_ge\<close>).
\<close>

record Random =
  floats :: "nat \<Rightarrow> real"
  ints :: "nat \<Rightarrow> int"
  draws :: nat

definition rng_random :: "Random \<Rightarrow> real \<times> Random" where
  "rng_random r = (floats r (draws r), r\<lparr>draws := draws r + 1\<rparr>)"

definition rng_randint :: "int \<Rightarrow> int \<Rightarrow> Random \<Rightarrow> int \<times> Random" where
  "rng_randint a b r = (a + ints r (draws r) mod (b - a + 1), r\<lparr>draws := draws r + 1\<rparr>)"

section \<open>Track generator\<close>

text \<open>
  A column is \<open>(cell, elev)\<close> with cell \<open>G\<close> (ground), \<open>C\<close> (cone) or a blank (pit);
  \<open>next_cell\<close> returns the column and an optional enemy marker, the dict
  \<open>{'type': 'fly'}\<close>.
\<close>

type_synonym column = "char \<times> int"
type_synonym marker = "(string \<times> string) list"

record TrackGen =
  warmup_cols :: int
  cooldown :: int
  pit_left :: int
  edge_protect :: int
  elev :: int
  max_elev :: int
  rng :: Random

definition TrackGen_init :: "int \<Rightarrow> int \<Rightarrow> int \<Rightarrow> Random \<Rightarrow> TrackGen" where
  "TrackGen_init width warmup max_elevation seeded =
     \<lparr>warmup_cols = warmup, cooldown = 0, pit_left = 0, edge_protect = 0,
      elev = 0, max_elev = max_elevation, rng = seeded\<rparr>"

definition step_event :: "TrackGen \<Rightarrow> TrackGen" where
  "step_event g =
     (if elev g = 0 then g\<lparr>elev := elev g + 1\<rparr>
      else if max_elev g \<le> elev g then g\<lparr>elev := elev g + (- 1)\<rparr>
      else
        (let (r, rng') = rng_random (rng g);
             up = (r < STEP_UP_BIAS)
         in g\<lparr>rng := rng', elev := elev g + (if up then 1 else - 1)\<rparr>))"

text \<open>
  \<open>next_cell\<close> is modelled in two parts. \<open>hazard_roll\<close> is its tail, the new-hazard
  roll that runs once warm-up, pit and cooldown are exhausted: every \<open>return\<close> of the
  source ends the chain of tests, so a draw below is made only when no earlier test has
  returned.
\<close>

definition hazard_roll :: "real \<Rightarrow> TrackGen \<Rightarrow> (column \<times> marker option) \<times> TrackGen" where
  "hazard_roll speed g =
     (let J = max_jump_columns speed;
          pit_cap = max PIT_MIN (min PIT_MAX (J - 2));
          can_pit = (PIT_MIN \<le> pit_cap);
          can_cone = (edge_protect g = 0);
          (r1, rng1) = rng_random (rng g);
          g1 = g\<lparr>rng := rng1\<rparr>
      in if r1 < STEP_RATE then
           (let g2 = step_event g1;
                g3 = g2\<lparr>cooldown := min_spacing speed, edge_protect := EDGE_BUFFER\<rparr>
            in (((CHR ''G'', elev g3), None), g3))
         else
           (let (r2, rng2) = rng_random (rng g1);
                g2 = g1\<lparr>rng := rng2\<rparr>
            in if can_pit \<and> r2 < PIT_RATE then
                 (let (w, rng3) = rng_randint PIT_MIN pit_cap (rng g2);
                      g3 = g2\<lparr>rng := rng3, pit_left := w - 1\<rparr>
                  in (((CHR '' '', elev g3), None), g3))
               else
                 (let (r3, rng3) = rng_random (rng g2);
                      g3 = g2\<lparr>rng := rng3\<rparr>
                  in if can_cone \<and> r3 < CONE_RATE then
                       (let g4 = g3\<lparr>cooldown := min_spacing speed\<rparr>
                        in (((CHR ''C'', elev g4), None), g4))
                     else
                       (let (r4, rng4) = rng_random (rng g3);
                            g4 = g3\<lparr>rng := rng4\<rparr>
                        in if r4 < ENEMY_RATE then
                             (let g5 = g4\<lparr>cooldown := min_spacing speed\<rparr>
                              in (((CHR ''G'', elev g5), Some [(''type'', ''fly'')]), g5))
                           else
                             (let g5 = (if 0 < edge_protect g4
                                        then g4\<lparr>edge_protect := edge_protect g4 - 1\<rparr>
                                        else g4)
                              in (((CHR ''G'', elev g5), None), g5))))))"

definition next_cell :: "real \<Rightarrow> TrackGen \<Rightarrow> (column \<times> marker option) \<times> TrackGen" where
  "next_cell speed g =
     (if 0 < warmup_cols g then
        (let g1 = g\<lparr>warmup_cols := warmup_cols g - 1\<rparr>
         in (((CHR ''G'', elev g1), None), g1))
      else if 0 < pit_left g then
        (let g1 = g\<lparr>pit_left := pit_left g - 1\<rparr>;
             g2 = (if pit_left g1 = 0
                   then g1\<lparr>cooldown := min_spacing speed, edge_protect := EDGE_BUFFER\<rparr>
                   else g1)
         in (((CHR '' '', elev g2), None), g2))
      else if 0 < cooldown g then
        (let g1 = g\<lparr>cooldown := cooldown g - 1\<rparr>;
             g2 = (if 0 < edge_protect g1
                   then g1\<lparr>edge_protect := edge_protect g1 - 1\<rparr>
                   else g1)
         in (((CHR ''G'', elev g2), None), g2))
      else hazard_roll speed g)"

text \<open>
  \<open>advance\<close>: the loop \<open>for _ in range(n)\<close>, collecting the cells and the markers
  (\<open>if enemy\<close> holds for a marker, a non-empty dict, and fails for \<open>None\<close>).
\<close>

fun advance_loop ::
  "nat \<Rightarrow> real \<Rightarrow> column list \<Rightarrow> marker list \<Rightarrow> TrackGen
     \<Rightarrow> (column list \<times> marker list) \<times> TrackGen" where
  "advance_loop 0 speed cells enemies g = ((cells, enemies), g)"
| "advance_loop (Suc k) speed cells enemies g =
     (let ((col, enemy), g') = next_cell speed g
      in advance_loop k speed (cells @ [col])
           (case enemy of None \<Rightarrow> enemies | Some e \<Rightarrow> enemies @ [e]) g')"

definition advance :: "int \<Rightarrow> real \<Rightarrow> TrackGen \<Rightarrow> (column list \<times> marker list) \<times> TrackGen" where
  "advance n speed g = advance_loop (nat n) speed [] [] g"

text \<open>
  Successive calls of \<open>next_cell\<close>, one per speed of the list: what a caller sees when the
  speed changes from column to column.
\<close>

fun next_cells :: "real list \<Rightarrow> TrackGen \<Rightarrow> (column \<times> marker option) list \<times> TrackGen" where
  "next_cells [] g = ([], g)"
| "next_cells (s # ss) g =
     (let (out, g') = next_cell s g;
          (outs, g'') = next_cells ss g'
      in (out # outs, g''))"

text \<open>The warm-up budget \<open>main\<close> gives a fresh generator on a screen of width \<open>w\<close>.\<close>

definition main_warmup_cols :: "int \<Rightarrow> int" where
  "main_warmup_cols w = py_int (SAFE_START_SEC * START_SPEED * of_int FPS) + w"

section \<open>Vehicle physics\<close>

text \<open>
  Record fields are global constants, so the attributes \<open>x\<close>, \<open>y\<close>, \<open>vy\<close> of the
  player and the keys \<open>'x'\<close>, \<open>'y'\<close>, \<open>'shim'\<close> of the bullet and enemy dicts carry
  the owner's name as a prefix.
\<close>

record Player =
  player_x :: int
  player_y :: real
  player_vy :: real
  on_ground :: bool
  jump_buffer :: bool

definition Player_init :: "int \<Rightarrow> int \<Rightarrow> Player" where
  "Player_init surface_row x0 =
     \<lparr>player_x = x0, player_y = of_int surface_row, player_vy = 0,
      on_ground = True, jump_buffer = False\<rparr>"

definition request_jump :: "Player \<Rightarrow> Player" where
  "request_jump p = p\<lparr>jump_buffer := True\<rparr>"

definition update :: "int \<Rightarrow> real \<Rightarrow> Player \<Rightarrow> Player" where
  "update surface_row dt p =
     (let p1 = (if jump_buffer p \<and> on_ground p
                then p\<lparr>player_vy := JUMP_VEL, on_ground := False, jump_buffer := False\<rparr>
                else p)
      in if \<not> on_ground p1 then
           (let p2 = p1\<lparr>player_y := player_y p1 - player_vy p1 * dt\<rparr>;
                p3 = p2\<lparr>player_vy := player_vy p2 - GRAVITY * dt\<rparr>
            in if of_int surface_row \<le> player_y p3
               then p3\<lparr>player_y := of_int surface_row, player_vy := 0, on_ground := True\<rparr>
               else p3)
         else p1\<lparr>player_y := of_int surface_row\<rparr>)"

definition frame_time :: real where
  "frame_time = 1 / of_int FPS"

text \<open>
  The player after \<open>n\<close> frames of the main loop over a constant surface row, with no
  further input: one \<open>update(surface_row, frame_time)\<close> per frame.
\<close>

fun frames :: "nat \<Rightarrow> int \<Rightarrow> Player \<Rightarrow> Player" where
  "frames 0 surface_row p = p"
| "frames (Suc n) surface_row p = update surface_row frame_time (frames n surface_row p)"

section \<open>Collision rules of the frame loop\<close>

definition ENEMY_ART :: "string list" where
  "ENEMY_ART =
     ['' //^'' @ [CHR 0x5C] @ '' '' @ [CHR 0x5C] @ '' '',
      ''<(o o o)>'',
      ''  '' @ [CHR 0x5C] @ ''_-_/ '']"

definition ENEMY_HEIGHT :: int where
  "ENEMY_HEIGHT = int (length ENEMY_ART)"

definition ENEMY_WIDTH :: int where
  "ENEMY_WIDTH = int (Max (set (map length ENEMY_ART)))"

definition rects_overlap :: "int \<Rightarrow> int \<Rightarrow> int \<Rightarrow> int \<Rightarrow> int \<Rightarrow> int \<Rightarrow> int \<Rightarrow> int \<Rightarrow> bool" where
  "rects_overlap ax ay aw ah bx by bw bh =
     (ax < bx + bw \<and> bx < ax + aw \<and> ay < by + bh \<and> by < ay + ah)"

record Bullet =
  bullet_x :: real
  bullet_y :: int

record Enemy =
  enemy_x :: real
  enemy_y :: int
  enemy_shim :: int

text \<open>
  The test of the inner loop of "bullet vs enemy": the bullet's 1x1 box against the
  enemy's art box, both at their rounded positions (\<open>round\<close> of an int is the int).
\<close>

definition bullet_hits :: "Bullet \<Rightarrow> Enemy \<Rightarrow> bool" where
  "bullet_hits b e =
     (let ex = py_round (enemy_x e); ey = enemy_y e;
          bx = py_round (bullet_x b); by = bullet_y b
      in rects_overlap bx by 1 1 ex ey ENEMY_WIDTH ENEMY_HEIGHT)"

text \<open>
  The inner loop \<open>for b in bullets\<close> for one enemy: at the first bullet that hits, set
  \<open>hit\<close>, add the kill value, move that bullet to \<open>w + 999\<close> and \<open>break\<close>. Returns
  \<open>(hit, bullets, score)\<close>.
\<close>

fun scan_bullets :: "int \<Rightarrow> Enemy \<Rightarrow> Bullet list \<Rightarrow> int \<Rightarrow> bool \<times> Bullet list \<times> int" where
  "scan_bullets w e [] score = (False, [], score)"
| "scan_bullets w e (b # bs) score =
     (if bullet_hits b e
      then (True, b\<lparr>bullet_x := of_int (w + 999)\<rparr> # bs, score + ENEMY_SCORE)
      else (let (hit, bs', score') = scan_bullets w e bs score
            in (hit, b # bs', score')))"

text \<open>The outer loop \<open>for e in enemies\<close>, with the list \<open>kept\<close> it builds.\<close>

fun scan_enemies ::
  "int \<Rightarrow> Enemy list \<Rightarrow> Enemy list \<Rightarrow> Bullet list \<Rightarrow> int \<Rightarrow> Enemy list \<times> Bullet list \<times> int" where
  "scan_enemies w [] kept bullets score = (kept, bullets, score)"
| "scan_enemies w (e # es) kept bullets score =
     (let (hit, bullets', score') = scan_bullets w e bullets score
      in scan_enemies w es (if \<not> hit then kept @ [e] else kept) bullets' score')"

text \<open>
  The whole "bullet vs enemy" block: the new \<open>enemies\<close>, the bullets still in play
  (\<open>b['x'] < w\<close>) and the score.
\<close>

definition bullet_vs_enemy ::
  "int \<Rightarrow> Enemy list \<Rightarrow> Bullet list \<Rightarrow> int \<Rightarrow> Enemy list \<times> Bullet list \<times> int" where
  "bullet_vs_enemy w enemies bullets score =
     (let (kept, bullets', score') = scan_enemies w enemies [] bullets score
      in (kept, filter (\<lambda>b. bullet_x b < of_int w) bullets', score'))"

text \<open>
  The terrain checks after the physics update: \<open>on_ground\<close> here is the local tolerance
  test of the frame, not the player's flag. \<open>step_wall\<close> is the condition of the
  step-up wall check; \<open>lethal_collisions\<close> returns the new \<open>game_over\<close>.
\<close>

definition near_ground :: "real \<Rightarrow> int \<Rightarrow> bool" where
  "near_ground y surface_row = (\<bar>y - of_int surface_row\<bar> < 0.51)"

definition step_wall :: "real \<Rightarrow> int \<Rightarrow> int \<Rightarrow> int \<Rightarrow> bool" where
  "step_wall y base_row elev_here elev_next =
     (let surface_row = base_row - elev_here;
          on_ground_now = near_ground y surface_row;
          next_surface_row = base_row - elev_next
      in on_ground_now \<and> elev_here < elev_next \<and> of_int next_surface_row - 0.01 < y)"

definition lethal_collisions :: "char \<Rightarrow> int \<Rightarrow> int \<Rightarrow> int \<Rightarrow> Player \<Rightarrow> bool \<Rightarrow> bool" where
  "lethal_collisions cell_here elev_here elev_next base_row p game_over =
     (let surface_row = base_row - elev_here;
          on_ground_now = near_ground (player_y p) surface_row;
          game_over1 = (if on_ground_now \<and> (cell_here = CHR '' '' \<or> cell_here = CHR ''C'')
                        then True else game_over)
      in if step_wall (player_y p) base_row elev_here elev_next then True else game_over1)"

section \<open>Vocabulary of the properties\<close>

text \<open>
  A generated column is a hazard column when it is not plain ground at the elevation of
  the column before it: a pit or cone cell, an enemy marker, or a step (a changed
  elevation).
\<close>

definition hazard_column :: "int \<Rightarrow> column \<times> marker option \<Rightarrow> bool" where
  "hazard_column prev_elev out =
     (fst (fst out) \<noteq> CHR ''G'' \<or> snd out \<noteq> None \<or> snd (fst out) \<noteq> prev_elev)"

text \<open>
  A bullet is in play while it is left of the screen's right edge (the test of the
  bullet filters of the frame). An enemy is within reach of the screen when its art box
  ends at or before column \<open>w + 999\<close>, the column a consumed bullet is parked at:
  enemies are spawned at column \<open>w - ENEMY_WIDTH\<close> and the scroll only moves them left.
\<close>

definition in_play :: "int \<Rightarrow> Bullet \<Rightarrow> bool" where
  "in_play w b = (bullet_x b < of_int w)"

definition enemy_in_reach :: "int \<Rightarrow> Enemy \<Rightarrow> bool" where
  "enemy_in_reach w e = (py_round (enemy_x e) + ENEMY_WIDTH \<le> w + 999)"

section \<open>Properties of the jump envelope\<close>

lemma py_int_mono: "x \<le> y \<Longrightarrow> py_int x \<le> py_int y"
proof -
  assume xy: "x \<le> y"
  show ?thesis
  proof (cases "0 \<le> x")
    case True
    with xy show ?thesis by (simp add: py_int_def floor_mono)
  next
    case neg: False
    show ?thesis
    proof (cases "0 \<le> y")
      case True
      have "\<lceil>x\<rceil> \<le> 0" using neg by (simp add: ceiling_le_zero)
      moreover have "0 \<le> \<lfloor>y\<rfloor>" using True by simp
      ultimately have "\<lceil>x\<rceil> \<le> \<lfloor>y\<rfloor>" by linarith
      then show ?thesis using neg True by (simp add: py_int_def)
    next
      case False
      with neg xy show ?thesis by (simp add: py_int_def ceiling_mono)
    qed
  qed
qed

lemma max_jump_columns_ge_3: "3 \<le> max_jump_columns s"
  by (simp add: max_jump_columns_def Let_def)

lemma max_jump_columns_mono:
  "s1 \<le> s2 \<Longrightarrow> max_jump_columns s1 \<le> max_jump_columns s2"
  unfolding max_jump_columns_def Let_def
  by (intro max.mono order_refl py_int_mono) (simp add: FPS_def JUMP_VEL_def GRAVITY_def)

text \<open>On the integers the spacing is six fifths of the jump length, rounded down.\<close>

lemma min_spacing_div: "min_spacing s = (6 * max_jump_columns s) div 5"
proof -
  have "of_int (max_jump_columns s) * SPACING_FACTOR
          = (of_int (6 * max_jump_columns s) / of_int 5 :: real)"
    by (simp add: SPACING_FACTOR_def)
  then have "\<lfloor>of_int (max_jump_columns s) * SPACING_FACTOR\<rfloor> = (6 * max_jump_columns s) div 5"
    by (simp only: floor_divide_of_int_eq)
  moreover have "0 \<le> of_int (max_jump_columns s) * SPACING_FACTOR"
    using max_jump_columns_ge_3 [of s] by (simp add: SPACING_FACTOR_def)
  ultimately show ?thesis by (simp add: min_spacing_def py_int_def)
qed

lemma max_jump_columns_start: "max_jump_columns 1 = 24"
  by (simp add: max_jump_columns_def py_int_def FPS_def JUMP_VEL_def GRAVITY_def)

lemma max_jump_columns_eighth: "max_jump_columns (1 / 8) = 3"
  by (simp add: max_jump_columns_def py_int_def FPS_def JUMP_VEL_def GRAVITY_def)

text \<open>
  Claim C4, as stated: for every speed \<open>s > 0\<close> the spacing is strictly greater than the
  jump length. It fails at the speed \<open>1/8\<close>: the jump length is the floor value 3 and
  \<open>int(3 * 1.2) = int(3.6) = 3\<close>, so the spacing equals the jump length.
\<close>

theorem C4_strict_spacing_counterexample:
  "(0::real) < 1 / 8 \<and> max_jump_columns (1 / 8) = 3 \<and> min_spacing (1 / 8) = 3
     \<and> \<not> (max_jump_columns (1 / 8) < min_spacing (1 / 8))"
  by (simp add: min_spacing_div max_jump_columns_eighth)

text \<open>
  Claim C4, amended: for every speed \<open>s\<close> the jump length is at least 3 and the spacing is
  at least the jump length; the spacing is strictly greater exactly when the jump length
  is at least 5, which holds at every speed from the start speed 1.0 on. (For jump
  lengths 3 and 4 the truncation \<open>int(J * 1.2)\<close> gives back \<open>J\<close>.)
\<close>

theorem C4_envelope_bounds:
  "3 \<le> max_jump_columns s
   \<and> max_jump_columns s \<le> min_spacing s
   \<and> (max_jump_columns s < min_spacing s \<longleftrightarrow> 5 \<le> max_jump_columns s)
   \<and> (START_SPEED \<le> s \<longrightarrow> max_jump_columns s < min_spacing s)"
proof -
  have ge3: "3 \<le> max_jump_columns s" by (rule max_jump_columns_ge_3)
  have le: "max_jump_columns s \<le> min_spacing s"
    using ge3 unfolding min_spacing_div by linarith
  have strict: "max_jump_columns s < min_spacing s \<longleftrightarrow> 5 \<le> max_jump_columns s"
    unfolding min_spacing_div by linarith
  have start: "max_jump_columns s < min_spacing s" if "START_SPEED \<le> s"
  proof -
    from that have "1 \<le> s" by (simp add: START_SPEED_def)
    then have "max_jump_columns 1 \<le> max_jump_columns s" by (rule max_jump_columns_mono)
    then have "5 \<le> max_jump_columns s" by (simp add: max_jump_columns_start)
    with strict show ?thesis by simp
  qed
  from ge3 le strict start show ?thesis by blast
qed

text \<open>At the start speed the jump length is 24 and the spacing 28.\<close>

theorem C4_envelope_bounds_witness:
  "START_SPEED \<le> 1 \<and> max_jump_columns 1 = 24 \<and> min_spacing 1 = 28
   \<and> max_jump_columns 1 < min_spacing 1"
  using C4_envelope_bounds [of 1]
  by (simp add: START_SPEED_def min_spacing_div max_jump_columns_start)

text \<open>
  Claim C10: both envelope functions are monotone non-decreasing in the speed: for
  \<open>s1 \<le> s2\<close>, \<open>max_jump_columns s1 \<le> max_jump_columns s2\<close> and
  \<open>min_spacing s1 \<le> min_spacing s2\<close>.
\<close>

theorem C10_envelope_monotone:
  assumes "s1 \<le> s2"
  shows "max_jump_columns s1 \<le> max_jump_columns s2 \<and> min_spacing s1 \<le> min_spacing s2"
proof -
  from assms have J: "max_jump_columns s1 \<le> max_jump_columns s2"
    by (rule max_jump_columns_mono)
  then have "6 * max_jump_columns s1 \<le> 6 * max_jump_columns s2" by simp
  then have "(6 * max_jump_columns s1) div 5 \<le> (6 * max_jump_columns s2) div 5"
    by (rule zdiv_mono1) simp
  with J show ?thesis by (simp add: min_spacing_div)
qed

text \<open>The speeds 1 and 2 (the start speed and its boost).\<close>

theorem C10_envelope_monotone_witness:
  "(1::real) \<le> 2 \<and> max_jump_columns 1 \<le> max_jump_columns 2 \<and> min_spacing 1 \<le> min_spacing 2"
proof -
  have h: "(1::real) \<le> 2" by simp
  from C10_envelope_monotone [OF h] h show ?thesis by simp
qed

section \<open>Properties of the track generator\<close>

lemma rng_randint_range:
  "a \<le> b \<Longrightarrow> a \<le> fst (rng_randint a b r) \<and> fst (rng_randint a b r) \<le> b"
proof -
  assume "a \<le> b"
  then have pos: "0 < b - a + 1" by simp
  have "0 \<le> ints r (draws r) mod (b - a + 1)" using pos by (rule pos_mod_sign)
  moreover have "ints r (draws r) mod (b - a + 1) < b - a + 1" using pos by (rule pos_mod_bound)
  ultimately show ?thesis by (simp add: rng_randint_def)
qed

lemma pit_cap_ge: "PIT_MIN \<le> max PIT_MIN (min PIT_MAX (J - 2))"
  by simp

lemma next_cell_warmup:
  "0 < warmup_cols g \<Longrightarrow>
     next_cell s g = (((CHR ''G'', elev g), None), g\<lparr>warmup_cols := warmup_cols g - 1\<rparr>)"
  by (simp add: next_cell_def)

lemma next_cells_warmup:
  "int (length ss) \<le> warmup_cols g \<Longrightarrow>
     next_cells ss g =
       (replicate (length ss) ((CHR ''G'', elev g), None),
        g\<lparr>warmup_cols := warmup_cols g - int (length ss)\<rparr>)"
proof (induction ss arbitrary: g)
  case Nil
  then show ?case by simp
next
  case (Cons s ss)
  let ?g1 = "g\<lparr>warmup_cols := warmup_cols g - 1\<rparr>"
  from Cons.prems have pos: "0 < warmup_cols g" by simp
  from Cons.prems have "int (length ss) \<le> warmup_cols ?g1" by simp
  from Cons.IH [OF this] pos show ?case
    by (simp add: next_cell_warmup)
qed

lemma next_cell_cooldown:
  assumes "warmup_cols g \<le> 0" "pit_left g \<le> 0" "0 < cooldown g"
  shows "fst (next_cell s g) = ((CHR ''G'', elev g), None)"
    and "warmup_cols (snd (next_cell s g)) = warmup_cols g"
    and "pit_left (snd (next_cell s g)) = pit_left g"
    and "cooldown (snd (next_cell s g)) = cooldown g - 1"
    and "elev (snd (next_cell s g)) = elev g"
    and "rng (snd (next_cell s g)) = rng g"
  using assms by (simp_all add: next_cell_def Let_def)

lemma next_cells_cooldown:
  "warmup_cols g \<le> 0 \<Longrightarrow> pit_left g \<le> 0 \<Longrightarrow> int (length ss) \<le> cooldown g \<Longrightarrow>
     fst (next_cells ss g) = replicate (length ss) ((CHR ''G'', elev g), None)
     \<and> rng (snd (next_cells ss g)) = rng g"
proof (induction ss arbitrary: g)
  case Nil
  then show ?case by simp
next
  case (Cons s ss)
  let ?g1 = "snd (next_cell s g)"
  from Cons.prems have pos: "0 < cooldown g" by simp
  note step = next_cell_cooldown [OF Cons.prems(1) Cons.prems(2) pos, of s]
  have "warmup_cols ?g1 \<le> 0" "pit_left ?g1 \<le> 0" "int (length ss) \<le> cooldown ?g1"
    using Cons.prems by (simp_all add: step)
  from Cons.IH [OF this] step(1) step(5) step(6) show ?case
    by (simp add: split_beta)
qed

lemma next_cells_take:
  "fst (next_cells (take n ss) g) = take n (fst (next_cells ss g))"
proof (induction ss arbitrary: n g)
  case Nil
  then show ?case by simp
next
  case (Cons s ss)
  show ?case
  proof (cases n)
    case 0
    then show ?thesis by simp
  next
    case (Suc m)
    with Cons.IH [of m "snd (next_cell s g)"] show ?thesis
      by (simp add: split_beta)
  qed
qed

lemma length_next_cells: "length (fst (next_cells ss g)) = length ss"
  by (induction ss arbitrary: g) (simp_all add: split_beta)

lemma pit_width_ge:
  "PIT_MIN \<le> fst (rng_randint PIT_MIN (max PIT_MIN (min PIT_MAX (J - 2))) r)"
  using rng_randint_range [OF pit_cap_ge] by simp

lemma step_event_frame [simp]:
  "warmup_cols (step_event g) = warmup_cols g"
  "pit_left (step_event g) = pit_left g"
  "cooldown (step_event g) = cooldown g"
  "edge_protect (step_event g) = edge_protect g"
  "max_elev (step_event g) = max_elev g"
  by (simp_all add: step_event_def Let_def split_beta)

lemma hazard_roll_resolved:
  assumes roll: "hazard_roll s g = (col, g')"
    and hz: "hazard_column (elev g) col"
    and last: "pit_left g' = 0"
  shows "cooldown g' = min_spacing s \<and> warmup_cols g' = warmup_cols g \<and> snd (fst col) = elev g'"
proof (cases "fst (rng_random (rng g)) < STEP_RATE")
  case True
  with roll show ?thesis
    by (auto simp: hazard_roll_def Let_def split_beta)
next
  case nostep: False
  let ?g1 = "g\<lparr>rng := snd (rng_random (rng g))\<rparr>"
  show ?thesis
  proof (cases "fst (rng_random (rng ?g1)) < PIT_RATE")
    case True
    let ?w = "fst (rng_randint PIT_MIN (max PIT_MIN (min PIT_MAX (max_jump_columns s - 2)))
                 (snd (rng_random (rng ?g1))))"
    from roll nostep True have "pit_left g' = ?w - 1"
      by (auto simp: hazard_roll_def Let_def split_beta)
    moreover have "PIT_MIN \<le> ?w" by (rule pit_width_ge)
    ultimately have "pit_left g' \<noteq> 0" by (simp add: PIT_MIN_def)
    with last show ?thesis by simp
  next
    case nopit: False
    with roll nostep hz show ?thesis
      by (auto simp: hazard_roll_def Let_def split_beta hazard_column_def split: if_splits)
  qed
qed

lemma next_cell_resolved:
  assumes warm: "warmup_cols g \<le> 0"
    and step: "next_cell s g = (col, g')"
    and hz: "hazard_column (elev g) col"
    and last: "pit_left g' = 0"
  shows "cooldown g' = min_spacing s \<and> warmup_cols g' \<le> 0 \<and> snd (fst col) = elev g'"
proof (cases "0 < pit_left g")
  case True
  with warm step last show ?thesis
    by (auto simp: next_cell_def Let_def split: if_splits)
next
  case nopit: False
  show ?thesis
  proof (cases "0 < cooldown g")
    case True
    with warm nopit step hz show ?thesis
      by (auto simp: next_cell_def Let_def hazard_column_def split: if_splits)
  next
    case False
    with warm nopit step have "hazard_roll s g = (col, g')"
      by (simp add: next_cell_def)
    from hazard_roll_resolved [OF this hz last] warm show ?thesis by simp
  qed
qed

text \<open>
  The loop \<open>advance\<close> is \<open>next_cells\<close> at one speed: the cells are the columns and the
  enemies are the markers, in order.
\<close>

lemma advance_loop_next_cells:
  "advance_loop k s cells enemies g =
     ((cells @ map fst (fst (next_cells (replicate k s) g)),
       enemies @ List.map_filter snd (fst (next_cells (replicate k s) g))),
      snd (next_cells (replicate k s) g))"
proof (induction k arbitrary: cells enemies g)
  case 0
  then show ?case by (simp add: List.map_filter_simps)
next
  case (Suc k)
  show ?case
    by (cases "snd (fst (next_cell s g))")
      (simp_all add: Suc.IH split_beta List.map_filter_simps)
qed

lemma advance_next_cells:
  "advance n s g =
     ((map fst (fst (next_cells (replicate (nat n) s) g)),
       List.map_filter snd (fst (next_cells (replicate (nat n) s) g))),
      snd (next_cells (replicate (nat n) s) g))"
  by (simp add: advance_def advance_loop_next_cells)

subsection \<open>Spacing between hazards\<close>

text \<open>
  Claim C2: after warm-up, when \<open>next_cell\<close> at speed \<open>s\<close> emits the last column of a
  hazard (a hazard column after which no pit remains open: the last pit column, a cone,
  a step or an enemy-marker column), the cooldown is re-armed to \<open>min_spacing s\<close>, and
  whatever speeds are passed afterwards, every later column that is not plain ground at the
  hazard's elevation has at least \<open>min_spacing s\<close> plain-ground columns before it; so the
  gap is at least \<open>min_spacing s - 1\<close>, the bound of the claim.
\<close>

theorem C2_min_spacing_gap:
  assumes warm: "warmup_cols g \<le> 0"
    and step: "next_cell s g = (col, g')"
    and hz: "hazard_column (elev g) col"
    and last: "pit_left g' = 0"
  shows "cooldown g' = min_spacing s
    \<and> (\<forall>ss j. j < length ss \<and> hazard_column (snd (fst col)) (fst (next_cells ss g') ! j)
          \<longrightarrow> min_spacing s \<le> int j)"
proof -
  from next_cell_resolved [OF warm step hz last]
  have cd: "cooldown g' = min_spacing s" and w': "warmup_cols g' \<le> 0"
    and el: "snd (fst col) = elev g'" by simp_all
  have "min_spacing s \<le> int j"
    if j: "j < length ss" and h: "hazard_column (snd (fst col)) (fst (next_cells ss g') ! j)"
    for ss j
  proof (rule ccontr)
    assume "\<not> min_spacing s \<le> int j"
    then have lt: "int (Suc j) \<le> cooldown g'" using cd by simp
    let ?pre = "take (Suc j) ss"
    have len: "length ?pre = Suc j" using j by simp
    have "fst (next_cells ?pre g') = replicate (length ?pre) ((CHR ''G'', elev g'), None)"
      using next_cells_cooldown [of g' ?pre] w' last lt len by simp
    then have eq: "take (Suc j) (fst (next_cells ss g'))
                     = replicate (Suc j) ((CHR ''G'', elev g'), None)"
      by (simp only: next_cells_take len)
    have "fst (next_cells ss g') ! j = take (Suc j) (fst (next_cells ss g')) ! j"
      by simp
    also have "\<dots> = replicate (Suc j) ((CHR ''G'', elev g'), None) ! j"
      by (simp only: eq)
    also have "\<dots> = ((CHR ''G'', elev g'), None)"
      by (rule nth_replicate) simp
    finally have "fst (next_cells ss g') ! j = ((CHR ''G'', elev g'), None)" .
    with h el show False by (simp add: hazard_column_def)
  qed
  with cd show ?thesis by blast
qed

text \<open>
  A cone at speed 1 arms a cooldown of 28; with the next draw a step, the next hazard
  column is the 29th column after the cone (index 28).
\<close>

theorem C2_min_spacing_gap_witness:
  "warmup_cols (TrackGen_init 80 0 10
      \<lparr>floats = (\<lambda>k. if k = 2 then 0.001 else if k = 3 then 0 else 1 / 2),
       ints = (\<lambda>k. 0), draws = 0\<rparr>) \<le> 0
   \<and> next_cell 1 (TrackGen_init 80 0 10
        \<lparr>floats = (\<lambda>k. if k = 2 then 0.001 else if k = 3 then 0 else 1 / 2),
         ints = (\<lambda>k. 0), draws = 0\<rparr>)
       = (((CHR ''C'', 0), None),
          \<lparr>warmup_cols = 0, cooldown = 28, pit_left = 0, edge_protect = 0, elev = 0,
           max_elev = 10,
           rng = \<lparr>floats = (\<lambda>k. if k = 2 then 0.001 else if k = 3 then 0 else 1 / 2),
                  ints = (\<lambda>k. 0), draws = 3\<rparr>\<rparr>)
   \<and> hazard_column 0 ((CHR ''C'', 0), None)
   \<and> (28::nat) < length (replicate 29 (1::real))
   \<and> fst (next_cells (replicate 29 1)
        \<lparr>warmup_cols = 0, cooldown = 28, pit_left = 0, edge_protect = 0, elev = 0,
         max_elev = 10,
         rng = \<lparr>floats = (\<lambda>k. if k = 2 then 0.001 else if k = 3 then 0 else 1 / 2),
                ints = (\<lambda>k. 0), draws = 3\<rparr>\<rparr>) ! 28 = ((CHR ''G'', 1), None)
   \<and> hazard_column 0 ((CHR ''G'', 1), None)
   \<and> min_spacing 1 = 28 \<and> min_spacing 1 \<le> int 28"
proof -
  let ?r = "\<lambda>n. \<lparr>floats = (\<lambda>k. if k = 2 then 0.001 else if k = 3 then 0 else 1 / 2 :: real),
                 ints = (\<lambda>k. 0 :: int), draws = n\<rparr>"
  let ?g = "TrackGen_init 80 0 10 (?r 0)"
  let ?g' = "\<lparr>warmup_cols = 0, cooldown = 28, pit_left = 0, edge_protect = 0, elev = 0,
             max_elev = 10, rng = ?r 3\<rparr>"
  have ms: "min_spacing 1 = 28"
    by (simp add: min_spacing_div max_jump_columns_start)
  have warm: "warmup_cols ?g \<le> 0" by (simp add: TrackGen_init_def)
  have step: "next_cell 1 ?g = (((CHR ''C'', 0), None), ?g')"
    by (simp add: ms next_cell_def hazard_roll_def rng_random_def TrackGen_init_def
        STEP_RATE_def PIT_RATE_def CONE_RATE_def Let_def)
  have hz: "hazard_column (elev ?g) ((CHR ''C'', 0), None)"
    by (simp add: hazard_column_def)
  have last: "pit_left ?g' = 0" by simp
  have nxt: "fst (next_cells (replicate 29 1) ?g') ! 28 = ((CHR ''G'', 1), None)"
    by code_simp
  have hz2: "hazard_column 0 ((CHR ''G'', 1), None)"
    by (simp add: hazard_column_def)
  have "min_spacing 1 \<le> int 28"
    using C2_min_spacing_gap [OF warm step hz last] nxt hz2 by auto
  with warm step hz nxt hz2 ms show ?thesis
    by (simp add: TrackGen_init_def)
qed

subsection \<open>Warm-up\<close>

lemma main_warmup_cols_eq: "main_warmup_cols w = 60 + w"
  by (simp add: main_warmup_cols_def py_int_def SAFE_START_SEC_def START_SPEED_def FPS_def)

text \<open>
  Claim C9: a fresh generator, built as \<open>main\<close> builds it for a screen of width \<open>w\<close>,
  emits plain ground at elevation 0 with no enemy marker for its first
  \<open>ceil(SAFE_START_SEC * START_SPEED * FPS) + w\<close> columns, whatever speeds are passed;
  only the warm-up counter changes (no step event, no random draw).
\<close>

theorem C9_warmup_plain:
  assumes "int (length ss) \<le> \<lceil>SAFE_START_SEC * START_SPEED * of_int FPS\<rceil> + w"
  shows "next_cells ss (TrackGen_init w (main_warmup_cols w) max_elevation seeded) =
           (replicate (length ss) ((CHR ''G'', 0), None),
            (TrackGen_init w (main_warmup_cols w) max_elevation seeded)
              \<lparr>warmup_cols := main_warmup_cols w - int (length ss)\<rparr>)"
proof -
  let ?g = "TrackGen_init w (main_warmup_cols w) max_elevation seeded"
  have "\<lceil>SAFE_START_SEC * START_SPEED * of_int FPS\<rceil> = 60"
    by (simp add: SAFE_START_SEC_def START_SPEED_def FPS_def)
  with assms have "int (length ss) \<le> warmup_cols ?g"
    by (simp add: main_warmup_cols_eq TrackGen_init_def)
  from next_cells_warmup [OF this] show ?thesis
    by (simp add: TrackGen_init_def)
qed

text \<open>Three columns at three different speeds on a screen of width 0.\<close>

theorem C9_warmup_plain_witness:
  "int (length [1, 2, 1 / 2 :: real]) \<le> \<lceil>SAFE_START_SEC * START_SPEED * of_int FPS\<rceil> + 0
   \<and> fst (next_cells [1, 2, 1 / 2]
        (TrackGen_init 0 (main_warmup_cols 0) 10
           \<lparr>floats = (\<lambda>k. 0), ints = (\<lambda>k. 0), draws = 0\<rparr>))
       = [((CHR ''G'', 0), None), ((CHR ''G'', 0), None), ((CHR ''G'', 0), None)]"
proof -
  have h: "int (length [1, 2, 1 / 2 :: real]) \<le> \<lceil>SAFE_START_SEC * START_SPEED * of_int FPS\<rceil> + 0"
    by (simp add: SAFE_START_SEC_def START_SPEED_def FPS_def)
  from C9_warmup_plain [OF h] h show ?thesis
    by (simp add: numeral_3_eq_3)
qed

subsection \<open>Random draws of the new-hazard roll\<close>

text \<open>
  Claim C3, as stated: every column of the new-hazard roll makes one draw per category,
  four in all, whether or not a hazard fires. It fails: from the same state a column
  where the step fires consumes one draw and a column where nothing fires consumes four.
\<close>

theorem C3_draws_counterexample:
  "draws (rng (snd (next_cell 1
      (TrackGen_init 80 0 10 \<lparr>floats = (\<lambda>k. 0), ints = (\<lambda>k. 0), draws = 0\<rparr>)))) = 1
   \<and> draws (rng (snd (next_cell 1
      (TrackGen_init 80 0 10 \<lparr>floats = (\<lambda>k. 1 / 2), ints = (\<lambda>k. 0), draws = 0\<rparr>)))) = 4"
  by (simp add: next_cell_def hazard_roll_def step_event_def rng_random_def rng_randint_def
      TrackGen_init_def STEP_RATE_def PIT_RATE_def CONE_RATE_def ENEMY_RATE_def Let_def)

text \<open>
  Claim C3, amended: in the new-hazard roll the draws are made in the fixed order step,
  pit, cone, enemy, and a category's draw is made only if no earlier category fired (the
  first success returns). A column consumes 1 draw when the step fires (2 when the
  direction is drawn too, that is when the elevation is neither 0 nor at the maximum),
  3 when the pit fires (two trials and the width), 3 when the cone fires, and 4 when the
  enemy or nothing fires.
\<close>

theorem C3_roll_draws:
  assumes "warmup_cols g \<le> 0" "pit_left g \<le> 0" "cooldown g \<le> 0"
  shows "draws (rng (snd (next_cell s g))) =
           draws (rng g) +
             (if floats (rng g) (draws (rng g)) < STEP_RATE then
                (if elev g \<noteq> 0 \<and> elev g < max_elev g then 2 else 1)
              else if floats (rng g) (draws (rng g) + 1) < PIT_RATE then 3
              else if edge_protect g = 0 \<and> floats (rng g) (draws (rng g) + 2) < CONE_RATE then 3
              else 4)
       \<and> fst (next_cell s g) =
             (if floats (rng g) (draws (rng g)) < STEP_RATE then
                ((CHR ''G'', elev (snd (next_cell s g))), None)
              else if floats (rng g) (draws (rng g) + 1) < PIT_RATE then
                ((CHR '' '', elev g), None)
              else if edge_protect g = 0 \<and> floats (rng g) (draws (rng g) + 2) < CONE_RATE then
                ((CHR ''C'', elev g), None)
              else if floats (rng g) (draws (rng g) + 3) < ENEMY_RATE then
                ((CHR ''G'', elev g), Some [(''type'', ''fly'')])
              else ((CHR ''G'', elev g), None))"
proof -
  from assms have "next_cell s g = hazard_roll s g" by (simp add: next_cell_def)
  then show ?thesis
    by (simp add: hazard_roll_def step_event_def rng_random_def rng_randint_def Let_def split_beta
        numeral_3_eq_3)
qed

text \<open>With every draw at 1/2 nothing fires and the column consumes four draws.\<close>

theorem C3_roll_draws_witness:
  "warmup_cols (TrackGen_init 80 0 10 \<lparr>floats = (\<lambda>k. 1 / 2), ints = (\<lambda>k. 0), draws = 0\<rparr>) \<le> 0
   \<and> draws (rng (snd (next_cell 1
         (TrackGen_init 80 0 10 \<lparr>floats = (\<lambda>k. 1 / 2), ints = (\<lambda>k. 0), draws = 0\<rparr>)))) = 4
   \<and> fst (next_cell 1
         (TrackGen_init 80 0 10 \<lparr>floats = (\<lambda>k. 1 / 2), ints = (\<lambda>k. 0), draws = 0\<rparr>))
       = ((CHR ''G'', 0), None)"
  using C3_roll_draws [of "TrackGen_init 80 0 10 \<lparr>floats = (\<lambda>k. 1 / 2), ints = (\<lambda>k. 0), draws = 0\<rparr>" 1]
  by (simp add: TrackGen_init_def STEP_RATE_def PIT_RATE_def CONE_RATE_def ENEMY_RATE_def)

subsection \<open>Elevation\<close>

text \<open>
  With a maximum elevation of at least 1 a step event keeps the elevation in range, moves
  it by exactly one, and is forced up at 0 and forced down at the maximum.
\<close>

lemma step_event_in_range:
  assumes "1 \<le> max_elev g" "0 \<le> elev g" "elev g \<le> max_elev g"
  shows "0 \<le> elev (step_event g) \<and> elev (step_event g) \<le> max_elev (step_event g)"
  using assms by (auto simp: step_event_def Let_def split_beta)

lemma step_event_unit:
  "elev (step_event g) = elev g + 1 \<or> elev (step_event g) = elev g - 1"
  by (simp add: step_event_def Let_def split_beta)

lemma step_event_forced:
  "elev g = 0 \<Longrightarrow> elev (step_event g) = 1"
  "elev g \<noteq> 0 \<Longrightarrow> max_elev g \<le> elev g \<Longrightarrow> elev (step_event g) = elev g - 1"
  by (simp_all add: step_event_def)

lemma next_cell_elev:
  "elev (snd (next_cell s g)) = elev g
   \<or> (warmup_cols g \<le> 0 \<and> pit_left g \<le> 0 \<and> cooldown g \<le> 0
       \<and> elev (snd (next_cell s g)) = elev (step_event (g\<lparr>rng := snd (rng_random (rng g))\<rparr>)))"
  by (simp add: next_cell_def hazard_roll_def Let_def split_beta)

lemma next_cell_max_elev: "max_elev (snd (next_cell s g)) = max_elev g"
  by (simp add: next_cell_def hazard_roll_def Let_def split_beta)

lemma next_cell_elev_in_range:
  assumes "1 \<le> max_elev g" "0 \<le> elev g" "elev g \<le> max_elev g"
  shows "0 \<le> elev (snd (next_cell s g)) \<and> elev (snd (next_cell s g)) \<le> max_elev (snd (next_cell s g))"
proof -
  let ?g1 = "g\<lparr>rng := snd (rng_random (rng g))\<rparr>"
  from assms have "0 \<le> elev (step_event ?g1) \<and> elev (step_event ?g1) \<le> max_elev g"
    using step_event_in_range [of ?g1] by simp
  with assms next_cell_elev [of s g] show ?thesis
    by (auto simp: next_cell_max_elev)
qed

text \<open>
  Claim C5 at a maximum elevation of 0 (the flat world \<open>main\<close> builds on a short
  screen): from elevation 0, inside \<open>[0, 0]\<close>, a step event goes up to 1, outside the
  range; the test \<open>elev == 0\<close> comes first.
\<close>

theorem C5_flat_world_step_out_of_range:
  "elev (TrackGen_init 80 0 0 \<lparr>floats = (\<lambda>k. 0), ints = (\<lambda>k. 0), draws = 0\<rparr>) = 0
   \<and> max_elev (TrackGen_init 80 0 0 \<lparr>floats = (\<lambda>k. 0), ints = (\<lambda>k. 0), draws = 0\<rparr>) = 0
   \<and> elev (snd (next_cell 1
        (TrackGen_init 80 0 0 \<lparr>floats = (\<lambda>k. 0), ints = (\<lambda>k. 0), draws = 0\<rparr>))) = 1
   \<and> max_elev (snd (next_cell 1
        (TrackGen_init 80 0 0 \<lparr>floats = (\<lambda>k. 0), ints = (\<lambda>k. 0), draws = 0\<rparr>))) = 0"
  by (simp add: next_cell_def hazard_roll_def step_event_def rng_random_def
      TrackGen_init_def STEP_RATE_def Let_def)

subsection \<open>Pit width\<close>

text \<open>
  The width of a rolled pit lies between \<open>PIT_MIN\<close> and the cap
  \<open>max PIT_MIN (min PIT_MAX (J - 2))\<close> the source computes.
\<close>

lemma pit_roll_width:
  assumes "hazard_roll s g = (col, g')" "fst (fst col) = CHR '' ''"
  shows "PIT_MIN \<le> pit_left g' + 1
       \<and> pit_left g' + 1 \<le> max PIT_MIN (min PIT_MAX (max_jump_columns s - 2))"
proof -
  let ?cap = "max PIT_MIN (min PIT_MAX (max_jump_columns s - 2))"
  let ?r = "snd (rng_random (snd (rng_random (rng g))))"
  from assms have "pit_left g' = fst (rng_randint PIT_MIN ?cap ?r) - 1"
    by (auto simp: hazard_roll_def Let_def split_beta split: if_splits)
  moreover have "PIT_MIN \<le> ?cap" by simp
  ultimately show ?thesis
    using rng_randint_range [of PIT_MIN ?cap ?r] by simp
qed

text \<open>
  Claim C1 at speed \<open>1/8\<close>: the jump length is 3, so the upper bound
  \<open>min PIT_MAX (J - 2) = 1\<close> is below \<open>PIT_MIN\<close> and the claim says no pit is emitted.
  The cap is raised to \<open>PIT_MIN\<close> before \<open>can_pit\<close> is computed, so \<open>can_pit\<close> is
  always true: the roll emits a pit three columns wide.
\<close>

theorem C1_unjumpable_pit_not_suppressed:
  "max_jump_columns (1 / 8) = 3
   \<and> min PIT_MAX (max_jump_columns (1 / 8) - 2) < PIT_MIN
   \<and> next_cells [1 / 8, 1 / 8, 1 / 8, 1 / 8]
        (TrackGen_init 80 0 10
           \<lparr>floats = (\<lambda>k. if k = 1 then 0.005 else 1 / 2), ints = (\<lambda>k. 0), draws = 0\<rparr>)
     = ([((CHR '' '', 0), None), ((CHR '' '', 0), None), ((CHR '' '', 0), None),
         ((CHR ''G'', 0), None)],
        \<lparr>warmup_cols = 0, cooldown = 2, pit_left = 0, edge_protect = 3, elev = 0, max_elev = 10,
         rng = \<lparr>floats = (\<lambda>k. if k = 1 then 0.005 else 1 / 2), ints = (\<lambda>k. 0), draws = 3\<rparr>\<rparr>)"
  by (simp add: max_jump_columns_eighth min_spacing_div next_cell_def hazard_roll_def
      rng_random_def rng_randint_def
      TrackGen_init_def STEP_RATE_def PIT_RATE_def PIT_MIN_def PIT_MAX_def EDGE_BUFFER_def Let_def)

section \<open>Properties of the vehicle physics\<close>

lemma update_takeoff:
  assumes "on_ground p" "jump_buffer p" "player_y p = of_int sr"
  shows "\<not> on_ground (update sr frame_time p)"
    and "\<not> jump_buffer (update sr frame_time p)"
    and "player_vy (update sr frame_time p) = 10 - 22 / 30"
    and "player_y (update sr frame_time p) = of_int sr - 1 / 3"
  using assms
  by (simp_all add: update_def frame_time_def FPS_def JUMP_VEL_def GRAVITY_def Let_def)

lemma update_airborne:
  assumes "\<not> on_ground p" "\<not> jump_buffer p"
    and "player_y p - player_vy p / 30 < of_int sr"
  shows "\<not> on_ground (update sr frame_time p)"
    and "\<not> jump_buffer (update sr frame_time p)"
    and "player_vy (update sr frame_time p) = player_vy p - 22 / 30"
    and "player_y (update sr frame_time p) = player_y p - player_vy p / 30"
  using assms
  by (simp_all add: update_def frame_time_def FPS_def GRAVITY_def Let_def)

lemma update_landing:
  assumes "\<not> on_ground p" "\<not> jump_buffer p"
    and "of_int sr \<le> player_y p - player_vy p / 30"
  shows "on_ground (update sr frame_time p)"
    and "player_vy (update sr frame_time p) = 0"
    and "player_y (update sr frame_time p) = of_int sr"
  using assms
  by (simp_all add: update_def frame_time_def FPS_def GRAVITY_def Let_def)

lemma arc_height_pos:
  fixes m :: real
  assumes "0 < m" "m \<le> 28"
  shows "0 < m * (311 - 11 * m)"
proof -
  from assms have "0 < 311 - 11 * m" by linarith
  with assms(1) show ?thesis by (rule mult_pos_pos)
qed

lemma jump_arc:
  assumes "on_ground p" "player_y p = of_int sr"
  shows "n < 28 \<Longrightarrow>
           \<not> on_ground (frames (Suc n) sr (request_jump p))
           \<and> \<not> jump_buffer (frames (Suc n) sr (request_jump p))
           \<and> player_vy (frames (Suc n) sr (request_jump p)) = 10 - 22 * real (Suc n) / 30
           \<and> player_y (frames (Suc n) sr (request_jump p))
               = of_int sr - real (Suc n) * (311 - 11 * real (Suc n)) / 900"
proof (induction n)
  case 0
  have "on_ground (request_jump p)" "jump_buffer (request_jump p)"
       "player_y (request_jump p) = of_int sr"
    using assms by (simp_all add: request_jump_def)
  from update_takeoff [OF this] show ?case by simp
next
  case (Suc n)
  let ?q = "frames (Suc n) sr (request_jump p)"
  from Suc have n: "n < 28" by simp
  from Suc.IH [OF n] have air: "\<not> on_ground ?q" "\<not> jump_buffer ?q"
    and vy: "player_vy ?q = 10 - 22 * real (Suc n) / 30"
    and y: "player_y ?q = of_int sr - real (Suc n) * (311 - 11 * real (Suc n)) / 900"
    by simp_all
  have next_y: "player_y ?q - player_vy ?q / 30
                  = of_int sr - real (Suc (Suc n)) * (311 - 11 * real (Suc (Suc n))) / 900"
    unfolding vy y by (simp add: field_simps)
  have "0 < real (Suc (Suc n))" "real (Suc (Suc n)) \<le> 28"
    using Suc.prems by simp_all
  then have "0 < real (Suc (Suc n)) * (311 - 11 * real (Suc (Suc n)))"
    by (rule arc_height_pos)
  then have below: "player_y ?q - player_vy ?q / 30 < of_int sr"
    unfolding next_y by simp
  from update_airborne [OF air below] vy next_y show ?case
    by (simp add: field_simps)
qed

text \<open>
  Claim C7: a grounded player on a constant surface row who requests a jump is airborne
  and strictly above the surface for frames 1 to 28, and at frame 29 the landing clamp
  puts it back on the ground at exactly the pre-jump row with zero velocity. The airtime
  of 29 frames is within two frames of \<open>2 * JUMP_VEL / GRAVITY\<close> seconds.
\<close>

theorem C7_jump_round_trip:
  assumes "on_ground p" "player_y p = of_int sr"
  shows "(\<forall>n. 1 \<le> n \<and> n \<le> 28 \<longrightarrow>
            \<not> on_ground (frames n sr (request_jump p))
            \<and> player_y (frames n sr (request_jump p)) < of_int sr)
       \<and> on_ground (frames 29 sr (request_jump p))
       \<and> player_y (frames 29 sr (request_jump p)) = player_y p
       \<and> player_vy (frames 29 sr (request_jump p)) = 0
       \<and> 2 * JUMP_VEL / GRAVITY < 29 * frame_time
       \<and> 29 * frame_time \<le> 2 * JUMP_VEL / GRAVITY + 2 * frame_time"
proof -
  have air: "\<not> on_ground (frames n sr (request_jump p))
             \<and> player_y (frames n sr (request_jump p)) < of_int sr"
    if "1 \<le> n" "n \<le> 28" for n
  proof -
    from that obtain k where n: "n = Suc k" and k: "k < 28"
      by (cases n) simp_all
    have "0 < real (Suc k)" "real (Suc k) \<le> 28" using k by simp_all
    then have "0 < real (Suc k) * (311 - 11 * real (Suc k))"
      by (rule arc_height_pos)
    with jump_arc [OF assms k] show ?thesis unfolding n by simp
  qed
  let ?q = "frames 28 sr (request_jump p)"
  from jump_arc [OF assms, of 27]
  have q: "\<not> on_ground ?q" "\<not> jump_buffer ?q"
    and vy: "player_vy ?q = 10 - 22 * 28 / 30"
    and y: "player_y ?q = of_int sr - 28 * (311 - 11 * 28) / 900"
    by simp_all
  have past: "of_int sr \<le> player_y ?q - player_vy ?q / 30"
    unfolding vy y by simp
  have "frames 29 sr (request_jump p) = update sr frame_time ?q"
    by (simp add: eval_nat_numeral)
  with update_landing [OF q past] assms(2)
  have land: "on_ground (frames 29 sr (request_jump p))"
    "player_y (frames 29 sr (request_jump p)) = player_y p"
    "player_vy (frames 29 sr (request_jump p)) = 0"
    by simp_all
  have time: "2 * JUMP_VEL / GRAVITY < 29 * frame_time"
    "29 * frame_time \<le> 2 * JUMP_VEL / GRAVITY + 2 * frame_time"
    by (simp_all add: JUMP_VEL_def GRAVITY_def frame_time_def FPS_def)
  from air land time show ?thesis by blast
qed

text \<open>A fresh player on row 20: airborne at frame 28, landed on row 20 at frame 29.\<close>

theorem C7_jump_round_trip_witness:
  "on_ground (Player_init 20 11) \<and> player_y (Player_init 20 11) = of_int 20
   \<and> (1::nat) \<le> 28 \<and> (28::nat) \<le> 28
   \<and> \<not> on_ground (frames 28 20 (request_jump (Player_init 20 11)))
   \<and> player_y (frames 28 20 (request_jump (Player_init 20 11))) < of_int 20
   \<and> on_ground (frames 29 20 (request_jump (Player_init 20 11)))
   \<and> player_y (frames 29 20 (request_jump (Player_init 20 11))) = of_int 20"
proof -
  have h: "on_ground (Player_init 20 11)" "player_y (Player_init 20 11) = of_int 20"
    by (simp_all add: Player_init_def)
  have n: "(1::nat) \<le> 28 \<and> (28::nat) \<le> 28" by simp
  note c = C7_jump_round_trip [OF h]
  note air = c [THEN conjunct1, THEN spec, THEN mp, OF n]
  note land = c [THEN conjunct2, THEN conjunct1]
  note same = c [THEN conjunct2, THEN conjunct2, THEN conjunct1]
  show ?thesis
    apply (intro conjI)
           apply (rule h(1))
          apply (rule h(2))
         apply (rule n [THEN conjunct1])
        apply (rule n [THEN conjunct2])
       apply (rule air [THEN conjunct1])
      apply (rule air [THEN conjunct2])
     apply (rule land)
    apply (rule trans [OF same h(2)])
    done
qed

section \<open>Properties of the collision rules\<close>

text \<open>
  Claim C6: the step-wall check fires exactly when the player is grounded (the frame's
  tolerance test), the next column is strictly higher, and the player's \<open>y\<close> is still
  below the next surface row (numerically greater); on plain ground with no earlier
  GameOver that is exactly when the frame sets GameOver. A grounded player at or above
  the next surface row does not trigger it. (The source compares against the next
  surface row minus 0.01; a grounded player is within 0.51 of its own surface row, at
  least one row below a higher next surface, so both comparisons agree.)
\<close>

theorem C6_step_wall:
  "(step_wall (player_y p) base_row elev_here elev_next \<longleftrightarrow>
      near_ground (player_y p) (base_row - elev_here) \<and> elev_here < elev_next
      \<and> of_int (base_row - elev_next) < player_y p)
   \<and> (lethal_collisions (CHR ''G'') elev_here elev_next base_row p False \<longleftrightarrow>
        step_wall (player_y p) base_row elev_here elev_next)
   \<and> (near_ground (player_y p) (base_row - elev_here)
        \<and> player_y p \<le> of_int (base_row - elev_next)
        \<longrightarrow> \<not> step_wall (player_y p) base_row elev_here elev_next)"
proof -
  have gap: "of_int (base_row - elev_next) < player_y p"
    if g: "near_ground (player_y p) (base_row - elev_here)" and up: "elev_here < elev_next"
  proof -
    from up have "elev_here + 1 \<le> elev_next" by simp
    then have "(of_int elev_here :: real) + 1 \<le> of_int elev_next"
      by (metis of_int_1 of_int_add of_int_le_iff)
    moreover from g
    have "\<bar>player_y p - (of_int base_row - of_int elev_here)\<bar> < 51 / 100"
      by (simp add: near_ground_def)
    then have "of_int base_row - of_int elev_here - 51 / 100 < player_y p"
      by linarith
    ultimately have "of_int base_row - of_int elev_next < player_y p"
      by linarith
    then show ?thesis by simp
  qed
  have wall: "step_wall (player_y p) base_row elev_here elev_next \<longleftrightarrow>
      near_ground (player_y p) (base_row - elev_here) \<and> elev_here < elev_next
      \<and> of_int (base_row - elev_next) < player_y p"
    using gap by (auto simp: step_wall_def Let_def)
  have frame: "lethal_collisions (CHR ''G'') elev_here elev_next base_row p False \<longleftrightarrow>
      step_wall (player_y p) base_row elev_here elev_next"
    by (simp add: lethal_collisions_def Let_def)
  from wall frame show ?thesis by auto
qed

text \<open>
  A player standing on row 20 (base row 21, elevation 1): a next column at elevation 2
  is a wall, a next column at elevation 1 is not.
\<close>

theorem C6_step_wall_witness:
  "near_ground (player_y (Player_init 20 11)) (21 - 1)
   \<and> player_y (Player_init 20 11) \<le> of_int (21 - 1)
   \<and> \<not> step_wall (player_y (Player_init 20 11)) 21 1 1
   \<and> (1::int) < 2 \<and> of_int (21 - 2) < player_y (Player_init 20 11)
   \<and> step_wall (player_y (Player_init 20 11)) 21 1 2
   \<and> lethal_collisions (CHR ''G'') 1 2 21 (Player_init 20 11) False"
  using C6_step_wall [of "Player_init 20 11" 21 1 2] C6_step_wall [of "Player_init 20 11" 21 1 1]
  by (simp add: near_ground_def Player_init_def)

lemma py_round_of_int [simp]: "py_round (of_int k) = k"
  by (simp add: py_round_def)

lemma ENEMY_WIDTH_eq: "ENEMY_WIDTH = 9"
  by (simp add: ENEMY_WIDTH_def ENEMY_ART_def)

lemma ENEMY_HEIGHT_eq: "ENEMY_HEIGHT = 3"
  by (simp add: ENEMY_HEIGHT_def ENEMY_ART_def)

lemma spent_misses:
  "enemy_in_reach w e \<Longrightarrow> \<not> bullet_hits (b\<lparr>bullet_x := of_int (w + 999)\<rparr>) e"
  unfolding bullet_hits_def enemy_in_reach_def rects_overlap_def Let_def
  by (simp del: of_int_add)

text \<open>The inner loop: when it hits, what it scores, which bullets it leaves alone.\<close>

lemma scan_bullets_hit:
  "fst (scan_bullets w e bs sc) \<longleftrightarrow> (\<exists>b\<in>set bs. bullet_hits b e)"
  by (induction bs) (auto simp: split_beta)

lemma scan_bullets_score:
  "snd (snd (scan_bullets w e bs sc)) =
     (if fst (scan_bullets w e bs sc) then sc + ENEMY_SCORE else sc)"
  by (induction bs) (auto simp: split_beta)

lemma scan_bullets_length:
  "length (fst (snd (scan_bullets w e bs sc))) = length bs"
  by (induction bs) (auto simp: split_beta)

lemma scan_bullets_keeps:
  "b \<in> set bs \<Longrightarrow> \<not> bullet_hits b e \<Longrightarrow> b \<in> set (fst (snd (scan_bullets w e bs sc)))"
  by (induction bs) (auto simp: split_beta)

lemma scan_bullets_in_play:
  assumes "enemy_in_reach w e"
    and "\<forall>b\<in>set bs. in_play w b \<or> bullet_x b = of_int (w + 999)"
  shows "(\<forall>b\<in>set (fst (snd (scan_bullets w e bs sc))).
            in_play w b \<or> bullet_x b = of_int (w + 999))
       \<and> int (length (filter (in_play w) (fst (snd (scan_bullets w e bs sc)))))
           = int (length (filter (in_play w) bs))
             - (if fst (scan_bullets w e bs sc) then 1 else 0)"
  using assms(2)
proof (induction bs)
  case Nil
  then show ?case by simp
next
  case (Cons b bs)
  show ?case
  proof (cases "bullet_hits b e")
    case True
    have "bullet_x b \<noteq> of_int (w + 999)"
    proof
      assume "bullet_x b = of_int (w + 999)"
      then have "b = b\<lparr>bullet_x := of_int (w + 999)\<rparr>" by simp
      with spent_misses [OF assms(1), of b] True show False by simp
    qed
    with Cons.prems have "in_play w b" by simp
    moreover have "\<not> in_play w (b\<lparr>bullet_x := of_int (w + 999)\<rparr>)"
      by (simp add: in_play_def)
    ultimately show ?thesis using True Cons.prems by simp
  next
    case False
    from Cons.prems have "\<forall>b\<in>set bs. in_play w b \<or> bullet_x b = of_int (w + 999)"
      by simp
    from Cons.IH [OF this] False Cons.prems show ?thesis
      by (auto simp: split_beta split: if_splits)
  qed
qed


text \<open>The outer loop does not depend on what \<open>kept\<close> already holds.\<close>

lemma scan_enemies_acc:
  "scan_enemies w es kept bs sc =
     (kept @ fst (scan_enemies w es [] bs sc), snd (scan_enemies w es [] bs sc))"
proof (induction es arbitrary: kept bs sc)
  case Nil
  then show ?case by simp
next
  case (Cons e es)
  let ?r = "scan_bullets w e bs sc"
  have "scan_enemies w (e # es) kept bs sc
          = scan_enemies w es (if \<not> fst ?r then kept @ [e] else kept) (fst (snd ?r)) (snd (snd ?r))"
    by (simp add: split_beta)
  also have "\<dots> = ((if \<not> fst ?r then kept @ [e] else kept)
                       @ fst (scan_enemies w es [] (fst (snd ?r)) (snd (snd ?r))),
                     snd (scan_enemies w es [] (fst (snd ?r)) (snd (snd ?r))))"
    by (rule Cons.IH)
  finally have a: "scan_enemies w (e # es) kept bs sc
      = ((if \<not> fst ?r then kept @ [e] else kept)
           @ fst (scan_enemies w es [] (fst (snd ?r)) (snd (snd ?r))),
         snd (scan_enemies w es [] (fst (snd ?r)) (snd (snd ?r))))" .
  have "scan_enemies w (e # es) [] bs sc
          = scan_enemies w es (if \<not> fst ?r then [e] else []) (fst (snd ?r)) (snd (snd ?r))"
    by (simp add: split_beta)
  also have "\<dots> = ((if \<not> fst ?r then [e] else [])
                       @ fst (scan_enemies w es [] (fst (snd ?r)) (snd (snd ?r))),
                     snd (scan_enemies w es [] (fst (snd ?r)) (snd (snd ?r))))"
    by (rule Cons.IH)
  finally have b: "scan_enemies w (e # es) [] bs sc
      = ((if \<not> fst ?r then [e] else [])
           @ fst (scan_enemies w es [] (fst (snd ?r)) (snd (snd ?r))),
         snd (scan_enemies w es [] (fst (snd ?r)) (snd (snd ?r))))" .
  show ?case unfolding a b by simp
qed

text \<open>One enemy, then the rest, with the empty accumulator.\<close>

lemma scan_enemies_Cons:
  "scan_enemies w (e # es) [] bs sc =
     ((if fst (scan_bullets w e bs sc) then [] else [e])
        @ fst (scan_enemies w es [] (fst (snd (scan_bullets w e bs sc)))
                 (snd (snd (scan_bullets w e bs sc)))),
      snd (scan_enemies w es [] (fst (snd (scan_bullets w e bs sc)))
             (snd (snd (scan_bullets w e bs sc)))))"
proof -
  let ?r = "scan_bullets w e bs sc"
  have "scan_enemies w (e # es) [] bs sc
          = scan_enemies w es (if \<not> fst ?r then [e] else []) (fst (snd ?r)) (snd (snd ?r))"
    by (simp add: split_beta)
  also have "\<dots> = ((if \<not> fst ?r then [e] else [])
                       @ fst (scan_enemies w es [] (fst (snd ?r)) (snd (snd ?r))),
                     snd (scan_enemies w es [] (fst (snd ?r)) (snd (snd ?r))))"
    by (rule scan_enemies_acc)
  finally show ?thesis by simp
qed

lemma scan_enemies_subseq: "subseq (fst (scan_enemies w es [] bs sc)) es"
proof (induction es arbitrary: bs sc)
  case Nil
  then show ?case by simp
next
  case (Cons e es)
  let ?r = "scan_bullets w e bs sc"
  have rest: "subseq (fst (scan_enemies w es [] (fst (snd ?r)) (snd (snd ?r)))) es"
    by (rule Cons.IH)
  show ?case
  proof (cases "fst ?r")
    case True
    from rest have "subseq (fst (scan_enemies w es [] (fst (snd ?r)) (snd (snd ?r)))) (e # es)"
      by (rule list_emb_Cons)
    with True show ?thesis unfolding scan_enemies_Cons by simp
  next
    case False
    with rest show ?thesis unfolding scan_enemies_Cons by simp
  qed
qed

lemma scan_enemies_length: "length (fst (scan_enemies w es [] bs sc)) \<le> length es"
  using scan_enemies_subseq [of w es bs sc] by (rule list_emb_length)

lemma scan_enemies_score:
  "snd (snd (scan_enemies w es [] bs sc)) =
     sc + ENEMY_SCORE * (int (length es) - int (length (fst (scan_enemies w es [] bs sc))))"
proof (induction es arbitrary: bs sc)
  case Nil
  then show ?case by simp
next
  case (Cons e es)
  show ?case
    unfolding scan_enemies_Cons
    by (simp add: Cons.IH scan_bullets_score algebra_simps)
qed

lemma scan_enemies_keeps:
  "b \<in> set bs \<Longrightarrow> \<forall>e\<in>set es. \<not> bullet_hits b e \<Longrightarrow>
     b \<in> set (fst (snd (scan_enemies w es [] bs sc)))"
proof (induction es arbitrary: bs sc)
  case Nil
  then show ?case by simp
next
  case (Cons e es)
  from Cons.prems have "b \<in> set (fst (snd (scan_bullets w e bs sc)))"
    by (simp add: scan_bullets_keeps)
  moreover from Cons.prems have "\<forall>e\<in>set es. \<not> bullet_hits b e" by simp
  ultimately show ?case
    unfolding scan_enemies_Cons by (simp add: Cons.IH)
qed

lemma scan_enemies_in_play:
  assumes "\<forall>e\<in>set es. enemy_in_reach w e"
    and "\<forall>b\<in>set bs. in_play w b \<or> bullet_x b = of_int (w + 999)"
  shows "(\<forall>b\<in>set (fst (snd (scan_enemies w es [] bs sc))).
            in_play w b \<or> bullet_x b = of_int (w + 999))
       \<and> int (length (filter (in_play w) (fst (snd (scan_enemies w es [] bs sc)))))
           = int (length (filter (in_play w) bs))
             - (int (length es) - int (length (fst (scan_enemies w es [] bs sc))))"
  using assms
proof (induction es arbitrary: bs sc)
  case Nil
  then show ?case by simp
next
  case (Cons e es)
  let ?r = "scan_bullets w e bs sc"
  from Cons.prems have e: "enemy_in_reach w e" and es: "\<forall>e\<in>set es. enemy_in_reach w e"
    by simp_all
  note one = scan_bullets_in_play [OF e Cons.prems(2), of sc]
  note rest = Cons.IH [OF es one [THEN conjunct1], of "snd (snd ?r)"]
  show ?case
    unfolding scan_enemies_Cons using one rest by (simp split: if_splits)
qed

lemma scan_enemies_append:
  "scan_enemies w (pre @ post) [] bs sc =
     (fst (scan_enemies w pre [] bs sc)
        @ fst (scan_enemies w post [] (fst (snd (scan_enemies w pre [] bs sc)))
                 (snd (snd (scan_enemies w pre [] bs sc)))),
      snd (scan_enemies w post [] (fst (snd (scan_enemies w pre [] bs sc)))
             (snd (snd (scan_enemies w pre [] bs sc)))))"
proof (induction pre arbitrary: bs sc)
  case Nil
  then show ?case by simp
next
  case (Cons e pre)
  show ?case
    unfolding append_Cons scan_enemies_Cons Cons.IH by simp
qed

lemma bullet_vs_enemy_eq:
  "bullet_vs_enemy w es bs sc =
     (fst (scan_enemies w es [] bs sc),
      filter (in_play w) (fst (snd (scan_enemies w es [] bs sc))),
      snd (snd (scan_enemies w es [] bs sc)))"
proof -
  have "(\<lambda>b. bullet_x b < of_int w) = in_play w"
    by (simp add: in_play_def fun_eq_iff)
  then show ?thesis
    by (simp add: bullet_vs_enemy_def split_beta)
qed

text \<open>
  Claim C8: in the "bullet vs enemy" block, with the bullets in play and the enemies
  within reach of the screen, an enemy hit by a projectile that no earlier enemy of the
  list was hit by is removed (the enemies kept are among the others); the score grows by
  the kill value once per removed enemy, however many projectiles overlap it; and each
  removed enemy takes exactly one projectile out of play, so no projectile hits twice.
\<close>

theorem C8_bullet_vs_enemy:
  assumes bs_in: "\<forall>b'\<in>set bullets. in_play w b'"
    and es_in: "\<forall>e'\<in>set (pre @ e # post). enemy_in_reach w e'"
    and b: "b \<in> set bullets"
    and hit: "bullet_hits b e"
    and fresh: "\<forall>e'\<in>set pre. \<not> bullet_hits b e'"
  shows "subseq (fst (bullet_vs_enemy w (pre @ e # post) bullets score)) (pre @ post)
       \<and> snd (snd (bullet_vs_enemy w (pre @ e # post) bullets score))
           = score + ENEMY_SCORE *
               (int (length (pre @ e # post))
                - int (length (fst (bullet_vs_enemy w (pre @ e # post) bullets score))))
       \<and> int (length (fst (snd (bullet_vs_enemy w (pre @ e # post) bullets score))))
           = int (length bullets)
             - (int (length (pre @ e # post))
                - int (length (fst (bullet_vs_enemy w (pre @ e # post) bullets score))))"
proof -
  let ?es = "pre @ e # post"
  let ?p = "scan_enemies w pre [] bullets score"
  let ?one = "scan_bullets w e (fst (snd ?p)) (snd (snd ?p))"
  let ?q = "scan_enemies w post [] (fst (snd ?one)) (snd (snd ?one))"
  have "b \<in> set (fst (snd ?p))"
    using b fresh by (rule scan_enemies_keeps)
  with hit have "fst ?one"
    unfolding scan_bullets_hit by blast
  then have kept: "fst (scan_enemies w ?es [] bullets score) = fst ?p @ fst ?q"
    unfolding scan_enemies_append [of w pre "e # post"] scan_enemies_Cons by simp
  have "subseq (fst ?p) pre" "subseq (fst ?q) post"
    by (rule scan_enemies_subseq)+
  then have "subseq (fst ?p @ fst ?q) (pre @ post)"
    by (rule list_emb_append_mono)
  then have removed: "subseq (fst (bullet_vs_enemy w ?es bullets score)) (pre @ post)"
    by (simp add: bullet_vs_enemy_eq kept)
  have scored: "snd (snd (bullet_vs_enemy w ?es bullets score))
      = score + ENEMY_SCORE *
          (int (length ?es) - int (length (fst (bullet_vs_enemy w ?es bullets score))))"
    unfolding bullet_vs_enemy_eq using scan_enemies_score [of w ?es bullets score] by simp
  have inv: "\<forall>b'\<in>set bullets. in_play w b' \<or> bullet_x b' = of_int (w + 999)"
    using bs_in by blast
  have all: "filter (in_play w) bullets = bullets"
    using bs_in by simp
  have spent: "int (length (fst (snd (bullet_vs_enemy w ?es bullets score))))
      = int (length bullets)
        - (int (length ?es) - int (length (fst (bullet_vs_enemy w ?es bullets score))))"
    unfolding bullet_vs_enemy_eq
    using scan_enemies_in_play [OF es_in inv, of score, THEN conjunct2]
    by (simp add: all)
  from removed scored spent show ?thesis by blast
qed

text \<open>
  Three enemies and three bullets on a screen of width 80. The first two bullets both
  overlap the second and the third enemy. The second enemy takes the first bullet, the
  third enemy the second bullet; the first enemy and the third bullet remain, and the
  score grows by twice the kill value.
\<close>

theorem C8_bullet_vs_enemy_witness:
  "in_play 80 \<lparr>bullet_x = 53, bullet_y = 11\<rparr>
   \<and> in_play 80 \<lparr>bullet_x = 56, bullet_y = 12\<rparr>
   \<and> in_play 80 \<lparr>bullet_x = 70, bullet_y = 11\<rparr>
   \<and> enemy_in_reach 80 \<lparr>enemy_x = 41 / 2, enemy_y = 10, enemy_shim = - 1\<rparr>
   \<and> enemy_in_reach 80 \<lparr>enemy_x = 101 / 2, enemy_y = 10, enemy_shim = - 1\<rparr>
   \<and> enemy_in_reach 80 \<lparr>enemy_x = 52, enemy_y = 10, enemy_shim = 1\<rparr>
   \<and> bullet_hits \<lparr>bullet_x = 53, bullet_y = 11\<rparr>
         \<lparr>enemy_x = 101 / 2, enemy_y = 10, enemy_shim = - 1\<rparr>
   \<and> bullet_hits \<lparr>bullet_x = 56, bullet_y = 12\<rparr>
         \<lparr>enemy_x = 101 / 2, enemy_y = 10, enemy_shim = - 1\<rparr>
   \<and> \<not> bullet_hits \<lparr>bullet_x = 53, bullet_y = 11\<rparr>
         \<lparr>enemy_x = 41 / 2, enemy_y = 10, enemy_shim = - 1\<rparr>
   \<and> bullet_vs_enemy 80
        [\<lparr>enemy_x = 41 / 2, enemy_y = 10, enemy_shim = - 1\<rparr>,
         \<lparr>enemy_x = 101 / 2, enemy_y = 10, enemy_shim = - 1\<rparr>,
         \<lparr>enemy_x = 52, enemy_y = 10, enemy_shim = 1\<rparr>]
        [\<lparr>bullet_x = 53, bullet_y = 11\<rparr>, \<lparr>bullet_x = 56, bullet_y = 12\<rparr>,
         \<lparr>bullet_x = 70, bullet_y = 11\<rparr>] 100
       = ([\<lparr>enemy_x = 41 / 2, enemy_y = 10, enemy_shim = - 1\<rparr>],
          [\<lparr>bullet_x = 70, bullet_y = 11\<rparr>], 150)
   \<and> subseq [\<lparr>enemy_x = 41 / 2, enemy_y = 10, enemy_shim = - 1\<rparr>]
        [\<lparr>enemy_x = 41 / 2, enemy_y = 10, enemy_shim = - 1\<rparr>,
         \<lparr>enemy_x = 52, enemy_y = 10, enemy_shim = 1\<rparr>]
   \<and> (150::int) = 100 + ENEMY_SCORE * (3 - 1)"
proof -
  let ?e0 = "\<lparr>enemy_x = 41 / 2, enemy_y = 10, enemy_shim = - 1\<rparr>"
  let ?e1 = "\<lparr>enemy_x = 101 / 2, enemy_y = 10, enemy_shim = - 1\<rparr>"
  let ?e2 = "\<lparr>enemy_x = 52, enemy_y = 10, enemy_shim = 1\<rparr>"
  let ?b1 = "\<lparr>bullet_x = 53, bullet_y = 11\<rparr>"
  let ?b2 = "\<lparr>bullet_x = 56, bullet_y = 12\<rparr>"
  let ?b3 = "\<lparr>bullet_x = 70, bullet_y = 11\<rparr>"
  have bs: "in_play 80 ?b1" "in_play 80 ?b2" "in_play 80 ?b3"
    by (simp_all add: in_play_def)
  have es: "enemy_in_reach 80 ?e0" "enemy_in_reach 80 ?e1" "enemy_in_reach 80 ?e2"
    by (simp_all add: enemy_in_reach_def py_round_def ENEMY_WIDTH_eq)
  have hits: "bullet_hits ?b1 ?e1" "bullet_hits ?b2 ?e1" "\<not> bullet_hits ?b1 ?e0"
    "\<not> bullet_hits ?b2 ?e0" "\<not> bullet_hits ?b3 ?e0" "\<not> bullet_hits ?b3 ?e1"
    "bullet_hits ?b2 ?e2" "\<not> bullet_hits ?b3 ?e2"
    "\<not> bullet_hits (?b1\<lparr>bullet_x := of_int (80 + 999)\<rparr>) ?e2"
    by (simp_all add: bullet_hits_def rects_overlap_def py_round_def ENEMY_WIDTH_eq ENEMY_HEIGHT_eq)
  have run: "bullet_vs_enemy 80 [?e0, ?e1, ?e2] [?b1, ?b2, ?b3] 100 = ([?e0], [?b3], 150)"
    by (simp add: bullet_vs_enemy_def bullet_hits_def rects_overlap_def py_round_def
        ENEMY_WIDTH_eq ENEMY_HEIGHT_eq ENEMY_SCORE_def)
  have h1: "\<forall>b'\<in>set [?b1, ?b2, ?b3]. in_play 80 b'" using bs by simp
  have h2: "\<forall>e'\<in>set ([?e0] @ ?e1 # [?e2]). enemy_in_reach 80 e'" using es by simp
  have h3: "?b1 \<in> set [?b1, ?b2, ?b3]" by simp
  have h5: "\<forall>e'\<in>set [?e0]. \<not> bullet_hits ?b1 e'" using hits(3) by simp
  from C8_bullet_vs_enemy [OF h1 h2 h3 hits(1) h5, of 100]
  have "subseq [?e0] [?e0, ?e2] \<and> (150::int) = 100 + ENEMY_SCORE * (3 - 1)"
    by (simp add: run)
  with bs es hits(1,2,3) run show ?thesis by blast
qed

end
